theory Spec2Isabelle
  imports Complex_Main "HOL-Library.Word"
begin

section \<open>evhz: event frequency tracking (evhz\_sdl2.cpp)\<close>

text \<open>
  A shallow embedding of \<^verbatim>\<open>processEvent\<close> and \<^verbatim>\<open>logEventData\<close>.

  \<^item> \<^verbatim>\<open>uint32_t\<close> timestamps are \<open>32 word\<close>: subtraction wraps modulo \<open>2 ^ 32\<close>.
  \<^item> \<^verbatim>\<open>double\<close> samples are idealised as \<open>real\<close>: rounding, infinities and NaN are
    not modelled. The conversion of a \<^verbatim>\<open>uint32_t\<close> or of a small \<^verbatim>\<open>size_t\<close> to
    \<^verbatim>\<open>double\<close> is exact, and the only division by a timestamp difference happens
    where the difference is not zero (lemma \<open>delta_nonzero\<close>).
  \<^item> \<^verbatim>\<open>std::vector\<close> is a list, oldest element first; \<^verbatim>\<open>back()\<close> is \<open>last\<close>,
    \<^verbatim>\<open>push_back\<close> appends, \<^verbatim>\<open>erase(begin())\<close> drops the head. \<^verbatim>\<open>back()\<close> and
    \<^verbatim>\<open>erase(begin())\<close> on an empty vector are undefined behaviour in C++; the model
    returns a \<open>failure\<close> there.
  \<^item> \<^verbatim>\<open>std::map<TimedEventType, EventData>\<close> is a partial map; \<^verbatim>\<open>events[t]\<close>
    inserts a default-constructed \<^verbatim>\<open>EventData\<close> for an absent key; iteration is
    in key order (\<open>Keyboard\<close> before \<open>Mouse\<close>).
  \<^item> \<^verbatim>\<open>std::cout\<close> is a list of report lines; a line keeps the label and the two
    numbers, the decimal formatting of \<^verbatim>\<open>operator<<\<close> is not modelled.
\<close>

subsection \<open>Data model\<close>

type_synonym u32 = "32 word"

definition event_data_freq_array_size :: nat where
  "event_data_freq_array_size = 64"

datatype TimedEventType = Keyboard | Mouse

fun TimedEventTypeToString :: "TimedEventType \<Rightarrow> string" where
  "TimedEventTypeToString Keyboard = ''Keyboard''"
| "TimedEventTypeToString Mouse = ''Mouse''"

record EventData =
  timestamps :: "u32 list"
  freq_array :: "real list"
  average_freq :: real

definition EventData_default :: EventData where
  "EventData_default = \<lparr>timestamps = [], freq_array = [], average_freq = 0\<rparr>"

type_synonym registry = "TimedEventType \<rightharpoonup> EventData"

datatype failure = BackOfEmptyVector | EraseOfEmptyVector

subsection \<open>processEvent\<close>

text \<open>
  The eviction loop (lines 87--91): while \<^verbatim>\<open>freq_array\<close> holds more than 64 samples,
  erase the first element of \<^verbatim>\<open>freq_array\<close>, then the first element of
  \<^verbatim>\<open>timestamps\<close>.
\<close>

function evict :: "EventData \<Rightarrow> failure + EventData" where
  "evict v =
     (if length (freq_array v) > event_data_freq_array_size then
        (case timestamps v of
           [] \<Rightarrow> Inl EraseOfEmptyVector
         | _ # ts \<Rightarrow> evict (v\<lparr>freq_array := tl (freq_array v), timestamps := ts\<rparr>))
      else Inr v)"
  by pat_completeness auto
termination
  by (relation "measure (\<lambda>v. length (freq_array v))") auto

declare evict.simps [simp del]

text \<open>
  \<^verbatim>\<open>processEvent(t, e, events)\<close>; of the event \<^verbatim>\<open>e\<close> only
  \<^verbatim>\<open>e.common.timestamp\<close> is read, so the event is its timestamp \<open>ts\<close>.
  \<open>lookup events t\<close> is the value that \<^verbatim>\<open>events[t]\<close> refers to; \<open>events1\<close> is the
  map once \<^verbatim>\<open>events[t]\<close> has inserted the key.
\<close>

definition lookup :: "registry \<Rightarrow> TimedEventType \<Rightarrow> EventData" where
  "lookup events t = (case events t of None \<Rightarrow> EventData_default | Some v \<Rightarrow> v)"

definition processEvent :: "TimedEventType \<Rightarrow> u32 \<Rightarrow> registry \<Rightarrow> failure + registry" where
  "processEvent t ts events =
     (let v = lookup events t;
          events1 = events(t \<mapsto> v)
      in if timestamps v \<noteq> [] \<and> ts = last (timestamps v) then Inr events1
         else
           (case (if freq_array v = [] then Inr (v\<lparr>freq_array := freq_array v @ [0]\<rparr>)
                  else if timestamps v = [] then Inl BackOfEmptyVector
                  else Inr (v\<lparr>freq_array := freq_array v @
                              [1000 / real (unat (ts - last (timestamps v)))]\<rparr>)) of
              Inl f \<Rightarrow> Inl f
            | Inr v1 \<Rightarrow>
                (case evict (v1\<lparr>timestamps := timestamps v1 @ [ts]\<rparr>) of
                   Inl f \<Rightarrow> Inl f
                 | Inr v2 \<Rightarrow> Inr (events1(t \<mapsto> v2)))))"

text \<open>
  The driver loop of \<^verbatim>\<open>main\<close> forwards each classified event to
  \<^verbatim>\<open>processEvent\<close>, in order; \<open>processEvents\<close> is that sequence of calls.
\<close>

fun processEvents :: "(TimedEventType \<times> u32) list \<Rightarrow> registry \<Rightarrow> failure + registry" where
  "processEvents [] events = Inr events"
| "processEvents ((t, ts) # es) events =
     (case processEvent t ts events of
        Inl f \<Rightarrow> Inl f
      | Inr events' \<Rightarrow> processEvents es events')"

subsection \<open>logEventData\<close>

record report_line =
  line_type :: string
  line_max :: real
  line_avg :: real

text \<open>The inner loop (lines 103--107) over the samples, on the pair \<open>(avgF, maxF)\<close>.\<close>

fun accumulate :: "real \<times> real \<Rightarrow> real list \<Rightarrow> real \<times> real" where
  "accumulate (avgF, maxF) [] = (avgF, maxF)"
| "accumulate (avgF, maxF) (f # fs) = accumulate (avgF + f, max maxF f) fs"

text \<open>
  The body of the outer loop (lines 98--110) for the entry with key \<open>t\<close>. The loop
  holds references into the map, so the state of the body is the map together with
  the lines written so far.
\<close>

definition logEntry :: "TimedEventType \<Rightarrow> registry \<times> report_line list \<Rightarrow> registry \<times> report_line list" where
  "logEntry t s =
     (case s of (events, out) \<Rightarrow>
        (case events t of
           None \<Rightarrow> (events, out)
         | Some e \<Rightarrow>
             (if freq_array e \<noteq> [] then
                (case accumulate (0, 0) (freq_array e) of
                   (avgF, maxF) \<Rightarrow>
                     (events,
                      out @ [\<lparr>line_type = TimedEventTypeToString t, line_max = maxF,
                              line_avg = avgF / real (length (freq_array e))\<rparr>]))
              else (events, out))))"

text \<open>
  The outer loop visits the entries of the map in key order; a key that is not in the
  map has no entry and writes nothing.
\<close>

fun logLoop :: "TimedEventType list \<Rightarrow> registry \<times> report_line list \<Rightarrow> registry \<times> report_line list" where
  "logLoop [] s = s"
| "logLoop (t # ts) s = logLoop ts (logEntry t s)"

text \<open>
  \<^verbatim>\<open>logEventData(events)\<close> takes the map by reference: the model returns the map
  after the call together with the lines written.
\<close>

definition logEventData :: "registry \<Rightarrow> registry \<times> report_line list" where
  "logEventData events = logLoop [Keyboard, Mouse] (events, [])"

subsection \<open>Specification-level notions\<close>

text \<open>The last \<open>n\<close> elements of a list, in order.\<close>

definition lastn :: "nat \<Rightarrow> 'a list \<Rightarrow> 'a list" where
  "lastn n xs = drop (length xs - n) xs"

text \<open>
  The frequency samples of a sequence of timestamps, as the specification gives them:
  \<open>0\<close> for the first timestamp, and \<open>1000 / (t\<^sub>i - t\<^sub>i\<^sub>-\<^sub>1)\<close> for each later one, the
  difference taken in unsigned 32-bit arithmetic.
\<close>

fun deltas :: "u32 \<Rightarrow> u32 list \<Rightarrow> real list" where
  "deltas p [] = []"
| "deltas p (x # xs) = (1000 / real (unat (x - p))) # deltas x xs"

fun all_freqs :: "u32 list \<Rightarrow> real list" where
  "all_freqs [] = []"
| "all_freqs (x # xs) = 0 # deltas x xs"

text \<open>
  The window a class should hold once it has been sent the timestamps \<open>xs\<close>: adjacent
  duplicates dropped, then the 64 most recent timestamps and samples.
\<close>

definition window_of :: "u32 list \<Rightarrow> EventData" where
  "window_of xs =
     \<lparr>timestamps = lastn event_data_freq_array_size (remdups_adj xs),
      freq_array = lastn event_data_freq_array_size (all_freqs (remdups_adj xs)),
      average_freq = 0\<rparr>"

text \<open>The timestamps sent to class \<open>C\<close> in a sequence of calls, in arrival order.\<close>

definition stamps :: "TimedEventType \<Rightarrow> (TimedEventType \<times> u32) list \<Rightarrow> u32 list" where
  "stamps C evs = map snd (filter (\<lambda>e. fst e = C) evs)"

definition registry_of :: "(TimedEventType \<times> u32) list \<Rightarrow> registry" where
  "registry_of evs C = (if stamps C evs = [] then None else Some (window_of (stamps C evs)))"

text \<open>
  The invariant of the data model: both sequences of a state have the same length, at
  most 64. A class that is not in the map counts with the empty state.
\<close>

definition wf_EventData :: "EventData \<Rightarrow> bool" where
  "wf_EventData v \<longleftrightarrow>
     length (timestamps v) = length (freq_array v) \<and>
     length (freq_array v) \<le> event_data_freq_array_size"

definition wf_registry :: "registry \<Rightarrow> bool" where
  "wf_registry events \<longleftrightarrow> list_all (\<lambda>t. wf_EventData (lookup events t)) [Keyboard, Mouse]"

text \<open>
  The lines that the entry of key \<open>t\<close> should add to the report: none for a state
  without samples, else one line with the largest of \<open>0\<close> and the samples, and their mean.
\<close>

definition entry_lines :: "registry \<Rightarrow> TimedEventType \<Rightarrow> report_line list" where
  "entry_lines events t =
     (case events t of
        None \<Rightarrow> []
      | Some e \<Rightarrow>
          if freq_array e = [] then []
          else [\<lparr>line_type = TimedEventTypeToString t,
                 line_max = Max (insert 0 (set (freq_array e))),
                 line_avg = sum_list (freq_array e) / real (length (freq_array e))\<rparr>])"

section \<open>Properties\<close>

subsection \<open>The last \<open>n\<close> elements\<close>

lemma lastn_Nil [simp]: "lastn n [] = []"
  by (simp add: lastn_def)

lemma length_lastn [simp]: "length (lastn n xs) = min n (length xs)"
  by (simp add: lastn_def)

lemma lastn_eq_Nil [simp]: "lastn n xs = [] \<longleftrightarrow> n = 0 \<or> xs = []"
  by (cases xs) (auto simp add: lastn_def)

lemma last_lastn [simp]: "0 < n \<Longrightarrow> xs \<noteq> [] \<Longrightarrow> last (lastn n xs) = last xs"
  by (simp add: lastn_def)

lemma set_lastn: "set (lastn n xs) \<subseteq> set xs"
  by (simp add: lastn_def set_drop_subset)

lemma lastn_lastn_snoc: "lastn n (lastn n xs @ [x]) = lastn n (xs @ [x])"
proof (cases "n \<le> length xs")
  case True
  then have "Suc (length xs) - n = Suc (length xs - n)" by simp
  with True show ?thesis by (simp add: lastn_def min_absorb1)
next
  case False
  then show ?thesis by (simp add: lastn_def)
qed

subsection \<open>Samples of a timestamp sequence\<close>

lemma length_deltas [simp]: "length (deltas p xs) = length xs"
  by (induction xs arbitrary: p) simp_all

lemma length_all_freqs [simp]: "length (all_freqs xs) = length xs"
  by (cases xs) simp_all

lemma all_freqs_eq_Nil [simp]: "all_freqs xs = [] \<longleftrightarrow> xs = []"
  by (cases xs) simp_all

lemma deltas_snoc:
  "deltas p (xs @ [t]) = deltas p xs @ [1000 / real (unat (t - last (p # xs)))]"
  by (induction xs arbitrary: p) simp_all

lemma all_freqs_snoc:
  "xs \<noteq> [] \<Longrightarrow> all_freqs (xs @ [t]) = all_freqs xs @ [1000 / real (unat (t - last xs))]"
  by (cases xs) (simp_all add: deltas_snoc)

lemma deltas_nonneg: "f \<in> set (deltas p xs) \<Longrightarrow> 0 \<le> f"
  by (induction xs arbitrary: p) (auto simp del: of_nat_unat)

lemma all_freqs_nonneg: "f \<in> set (all_freqs xs) \<Longrightarrow> 0 \<le> f"
  by (cases xs) (auto dest: deltas_nonneg)

lemma remdups_adj_snoc:
  assumes "xs \<noteq> []"
  shows "remdups_adj (xs @ [t]) = (if last xs = t then remdups_adj xs else remdups_adj xs @ [t])"
proof -
  from assms have xs: "xs = butlast xs @ [last xs]" by simp
  have "remdups_adj (xs @ [t]) = remdups_adj (butlast xs @ [last xs, t])"
    by (subst xs) simp
  also have "\<dots> = remdups_adj (butlast xs @ [last xs]) @ (if last xs = t then [] else [t])"
    by (rule remdups_adj_append_two)
  finally show ?thesis using xs by simp
qed

lemma delta_nonzero: "ts \<noteq> l \<Longrightarrow> unat (ts - l) \<noteq> 0" for ts l :: u32
  by (simp add: unat_eq_0)

lemma delta_wrapped:
  "unat (ts - l) = nat ((int (unat ts) - int (unat l)) mod 2 ^ 32)" for ts l :: u32
proof -
  have "uint (ts - l) = (uint ts - uint l) mod 2 ^ 32"
    by (simp only: uint_word_ariths) simp
  moreover have "uint ts = int (unat ts)" and "uint l = int (unat l)"
    by simp_all
  moreover have "unat (ts - l) = nat (uint (ts - l))"
    by simp
  ultimately show ?thesis by (simp only:)
qed

lemma wrapped_difference:
  assumes "a < b" and "b < 2 ^ 32"
  shows "nat ((int a - int b) mod 2 ^ 32) = 2 ^ 32 - (b - a)"
proof -
  have "(int a - int b) mod 2 ^ 32 = (int a - int b + 2 ^ 32) mod 2 ^ 32"
    by simp
  also have "\<dots> = int a - int b + 2 ^ 32"
    using assms by (intro mod_pos_pos_trivial) simp_all
  finally show ?thesis using assms by simp
qed

subsection \<open>The eviction loop\<close>

lemma evict_eq:
  "length (timestamps v) = length (freq_array v) \<Longrightarrow>
   evict v = Inr (v\<lparr>freq_array := lastn event_data_freq_array_size (freq_array v),
                    timestamps := lastn event_data_freq_array_size (timestamps v)\<rparr>)"
proof (induction v rule: evict.induct)
  case (1 v)
  show ?case
  proof (cases "length (freq_array v) > event_data_freq_array_size")
    case False
    then show ?thesis using "1.prems"
      by (subst evict.simps) (simp add: lastn_def)
  next
    case True
    then obtain t ts where ts: "timestamps v = t # ts"
      using "1.prems" by (cases "timestamps v") auto
    then obtain f fs where fs: "freq_array v = f # fs"
      using "1.prems" by (cases "freq_array v") auto
    have len: "length ts = length fs" using "1.prems" ts fs by simp
    have "evict v = evict (v\<lparr>freq_array := tl (freq_array v), timestamps := ts\<rparr>)"
      using True ts by (subst evict.simps) simp
    also have "\<dots> = Inr (v\<lparr>freq_array := lastn event_data_freq_array_size fs,
                    timestamps := lastn event_data_freq_array_size ts\<rparr>)"
      using "1.IH"[OF True ts] len fs by simp
    also have "lastn event_data_freq_array_size fs = lastn event_data_freq_array_size (freq_array v)"
      using True fs by (simp add: lastn_def Suc_diff_le)
    also have "lastn event_data_freq_array_size ts = lastn event_data_freq_array_size (timestamps v)"
      using True ts len fs by (simp add: lastn_def Suc_diff_le)
    finally show ?thesis .
  qed
qed

subsection \<open>One call of processEvent\<close>

text \<open>
  The three paths of \<^verbatim>\<open>processEvent\<close>: the duplicate, the first sample of a class,
  and a later sample on a state whose two sequences have the same length.
\<close>

lemma processEvent_duplicate:
  assumes "timestamps (lookup events t) \<noteq> []" and "ts = last (timestamps (lookup events t))"
  shows "processEvent t ts events = Inr (events(t \<mapsto> lookup events t))"
  using assms by (simp add: processEvent_def)

lemma processEvent_first:
  assumes "timestamps (lookup events t) = []" and "freq_array (lookup events t) = []"
  shows "processEvent t ts events =
           Inr (events(t \<mapsto> (lookup events t)\<lparr>freq_array := [0], timestamps := [ts]\<rparr>))"
  using assms
  by (simp add: processEvent_def evict.simps event_data_freq_array_size_def)

lemma processEvent_next:
  assumes len: "length (timestamps (lookup events t)) = length (freq_array (lookup events t))"
    and ne: "timestamps (lookup events t) \<noteq> []"
    and neq: "ts \<noteq> last (timestamps (lookup events t))"
  shows "processEvent t ts events =
           Inr (events(t \<mapsto> (lookup events t)
             \<lparr>freq_array := lastn event_data_freq_array_size
                (freq_array (lookup events t) @
                   [1000 / real (unat (ts - last (timestamps (lookup events t))))]),
              timestamps := lastn event_data_freq_array_size
                (timestamps (lookup events t) @ [ts])\<rparr>))"
proof -
  let ?v = "lookup events t"
  let ?v1 = "?v\<lparr>freq_array := freq_array ?v @ [1000 / real (unat (ts - last (timestamps ?v)))],
               timestamps := timestamps ?v @ [ts]\<rparr>"
  have fne: "freq_array ?v \<noteq> []" using len ne by auto
  have "length (timestamps ?v1) = length (freq_array ?v1)" using len by simp
  then have "evict ?v1 = Inr (?v1\<lparr>freq_array := lastn event_data_freq_array_size (freq_array ?v1),
                    timestamps := lastn event_data_freq_array_size (timestamps ?v1)\<rparr>)"
    by (rule evict_eq)
  then show ?thesis using ne neq fne
    by (simp add: processEvent_def Let_def)
qed

lemma lookup_Some: "events t = Some v \<Longrightarrow> lookup events t = v"
  by (simp add: lookup_def)

lemma lookup_None: "events t = None \<Longrightarrow> lookup events t = EventData_default"
  by (simp add: lookup_def)

lemma upd_lookup_Some: "events t = Some v \<Longrightarrow> events(t \<mapsto> lookup events t) = events"
  by (auto simp add: lookup_def)

lemma processEvent_other:
  "processEvent t ts events = Inr events' \<Longrightarrow> t' \<noteq> t \<Longrightarrow> events' t' = events t'"
  by (auto simp add: processEvent_def Let_def split: if_splits sum.splits)

subsection \<open>The invariant\<close>

lemma wf_registry_lookup: "wf_registry events \<Longrightarrow> wf_EventData (lookup events t)"
  by (cases t) (simp_all add: wf_registry_def)

lemma wf_registryI: "(\<And>t. wf_EventData (lookup events t)) \<Longrightarrow> wf_registry events"
  by (simp add: wf_registry_def)

lemma wf_registry_empty: "wf_registry Map.empty"
  by (simp add: wf_registry_def lookup_def EventData_default_def wf_EventData_def)

lemma processEvent_wf:
  assumes "wf_registry events"
  shows "\<exists>events'. processEvent t ts events = Inr events' \<and> wf_registry events'"
proof -
  let ?v = "lookup events t"
  have wf: "wf_EventData ?v" using assms by (rule wf_registry_lookup)
  then have len: "length (timestamps ?v) = length (freq_array ?v)"
    by (simp add: wf_EventData_def)
  have step: "\<exists>v'. processEvent t ts events = Inr (events(t \<mapsto> v')) \<and> wf_EventData v'"
  proof (cases "timestamps ?v = []")
    case True
    then have "freq_array ?v = []" using len by simp
    with True have "processEvent t ts events =
        Inr (events(t \<mapsto> ?v\<lparr>freq_array := [0], timestamps := [ts]\<rparr>))"
      by (rule processEvent_first)
    moreover have "wf_EventData (?v\<lparr>freq_array := [0], timestamps := [ts]\<rparr>)"
      by (simp add: wf_EventData_def event_data_freq_array_size_def)
    ultimately show ?thesis by blast
  next
    case False
    show ?thesis
    proof (cases "ts = last (timestamps ?v)")
      case True
      with False have "processEvent t ts events = Inr (events(t \<mapsto> ?v))"
        by (rule processEvent_duplicate)
      with wf show ?thesis by blast
    next
      case neq: False
      note processEvent_next [OF len False neq]
      moreover have "wf_EventData (?v
             \<lparr>freq_array := lastn event_data_freq_array_size
                (freq_array ?v @ [1000 / real (unat (ts - last (timestamps ?v)))]),
              timestamps := lastn event_data_freq_array_size (timestamps ?v @ [ts])\<rparr>)"
        using len by (simp add: wf_EventData_def)
      ultimately show ?thesis by blast
    qed
  qed
  then obtain v' where p: "processEvent t ts events = Inr (events(t \<mapsto> v'))"
    and wf': "wf_EventData v'" by blast
  have "wf_registry (events(t \<mapsto> v'))"
  proof (rule wf_registryI)
    fix t'
    show "wf_EventData (lookup (events(t \<mapsto> v')) t')"
      using wf' wf_registry_lookup [OF assms, of t'] by (simp add: lookup_def)
  qed
  with p show ?thesis by blast
qed

subsection \<open>A sequence of calls from the empty map\<close>

lemma processEvent_window:
  assumes "events C = (if xs = [] then None else Some (window_of xs))"
  shows "processEvent C t events = Inr (events(C \<mapsto> window_of (xs @ [t])))"
proof (cases "xs = []")
  case True
  then have "lookup events C = EventData_default" using assms by (simp add: lookup_def)
  then have "processEvent C t events =
      Inr (events(C \<mapsto> EventData_default\<lparr>freq_array := [0], timestamps := [t]\<rparr>))"
    using processEvent_first [of events C t] by (simp add: EventData_default_def)
  moreover have "EventData_default\<lparr>freq_array := [0], timestamps := [t]\<rparr> = window_of (xs @ [t])"
    using True
    by (simp add: EventData_default_def window_of_def event_data_freq_array_size_def lastn_def)
  ultimately show ?thesis by simp
next
  case False
  have v: "lookup events C = window_of xs" using assms False by (simp add: lookup_def)
  have ts_ne: "timestamps (window_of xs) \<noteq> []"
    using False by (simp add: window_of_def event_data_freq_array_size_def)
  have lst: "last (timestamps (window_of xs)) = last xs"
    using False by (simp add: window_of_def event_data_freq_array_size_def)
  have len: "length (timestamps (window_of xs)) = length (freq_array (window_of xs))"
    by (simp add: window_of_def)
  show ?thesis
  proof (cases "t = last xs")
    case True
    then have "window_of (xs @ [t]) = window_of xs"
      using False by (simp add: window_of_def remdups_adj_snoc)
    then show ?thesis
      using processEvent_duplicate [of events C t] v ts_ne lst True by simp
  next
    case neq: False
    have "(window_of xs)\<lparr>freq_array := lastn event_data_freq_array_size
                (freq_array (window_of xs) @ [1000 / real (unat (t - last xs))]),
              timestamps := lastn event_data_freq_array_size (timestamps (window_of xs) @ [t])\<rparr>
          = window_of (xs @ [t])"
      using False neq
      by (simp add: window_of_def remdups_adj_snoc all_freqs_snoc lastn_lastn_snoc)
    then show ?thesis
      using processEvent_next [of events C t] v ts_ne lst len neq by simp
  qed
qed

lemma stamps_snoc:
  "stamps C (evs @ [(t, ts)]) = (if t = C then stamps C evs @ [ts] else stamps C evs)"
  by (simp add: stamps_def)

lemma processEvent_registry_of:
  "processEvent t ts (registry_of evs) = Inr (registry_of (evs @ [(t, ts)]))"
proof -
  have "registry_of evs t = (if stamps t evs = [] then None else Some (window_of (stamps t evs)))"
    by (simp add: registry_of_def)
  then have "processEvent t ts (registry_of evs) =
      Inr ((registry_of evs)(t \<mapsto> window_of (stamps t evs @ [ts])))"
    by (rule processEvent_window)
  moreover have "(registry_of evs)(t \<mapsto> window_of (stamps t evs @ [ts])) = registry_of (evs @ [(t, ts)])"
    by (rule ext) (simp add: registry_of_def stamps_snoc)
  ultimately show ?thesis by simp
qed

lemma processEvents_registry_of:
  "processEvents es (registry_of evs) = Inr (registry_of (evs @ es))"
proof (induction es arbitrary: evs)
  case Nil
  show ?case by simp
next
  case (Cons e es)
  obtain t ts where e: "e = (t, ts)" by (cases e)
  show ?case using Cons.IH [of "evs @ [(t, ts)]"]
    by (simp add: e processEvent_registry_of)
qed

lemma registry_of_Nil: "registry_of [] = Map.empty"
  by (rule ext) (simp add: registry_of_def stamps_def)

lemma processEvents_empty: "processEvents evs Map.empty = Inr (registry_of evs)"
  using processEvents_registry_of [of evs "[]"] by (simp add: registry_of_Nil)

lemma stamps_filter: "stamps C (filter (\<lambda>e. fst e = C) evs) = stamps C evs"
  by (simp add: stamps_def)

lemma strictly_increasing_remdups_adj: "sorted_wrt (<) xs \<Longrightarrow> remdups_adj xs = xs"
  for xs :: "u32 list"
  by (simp add: strict_sorted_iff remdups_adj_distinct)

subsection \<open>The report\<close>

lemma accumulate_eq:
  "accumulate (a, m) fs = (a + sum_list fs, fold (\<lambda>f m. max m f) fs m)"
  by (induction fs arbitrary: a m) simp_all

lemma fold_max_eq: "fold (\<lambda>f m. max m f) fs m = Max (insert m (set fs))" for m :: real
proof (induction fs arbitrary: m)
  case Nil
  show ?case by simp
next
  case (Cons f fs)
  have "Max (insert (max m f) (set fs)) = Max (insert m (insert f (set fs)))"
    by (cases "set fs = {}") (simp_all add: max.commute max.left_commute max.assoc)
  with Cons show ?case by simp
qed

lemma fst_logEntry: "fst (logEntry t s) = fst s"
  by (cases s) (simp add: logEntry_def split: option.splits prod.splits)

lemma fst_logLoop: "fst (logLoop ks s) = fst s"
  by (induction ks arbitrary: s) (simp_all add: fst_logEntry)

lemma logEntry_eq: "logEntry t (events, out) = (events, out @ entry_lines events t)"
  by (simp add: logEntry_def entry_lines_def accumulate_eq fold_max_eq split: option.splits)

lemma logEventData_eq:
  "logEventData events = (events, entry_lines events Keyboard @ entry_lines events Mouse)"
  by (simp add: logEventData_def logEntry_eq)

section \<open>The claims\<close>

text \<open>
  C1. For every sequence of calls of \<open>processEvent\<close> from the empty map, the calls
  succeed, and every state in the map has as many timestamps as samples, at most 64.
  If the timestamps sent to a class are strictly increasing (so none is dropped as a
  duplicate) and more than 64, the class holds exactly the last 64 timestamps and the
  last 64 samples, in arrival order.
\<close>

theorem window_bound:
  "\<exists>events. processEvents evs Map.empty = Inr events \<and>
     (\<forall>C v. events C = Some v \<longrightarrow>
        length (timestamps v) = length (freq_array v) \<and> length (freq_array v) \<le> 64) \<and>
     (\<forall>C. sorted_wrt (<) (stamps C evs) \<and> 64 < length (stamps C evs) \<longrightarrow>
        (\<exists>v. events C = Some v \<and>
             timestamps v = lastn 64 (stamps C evs) \<and>
             freq_array v = lastn 64 (all_freqs (stamps C evs)) \<and>
             length (timestamps v) = 64 \<and> length (freq_array v) = 64))"
proof -
  have run: "processEvents evs Map.empty = Inr (registry_of evs)"
    by (rule processEvents_empty)
  have inv: "length (timestamps v) = length (freq_array v) \<and> length (freq_array v) \<le> 64"
    if "registry_of evs C = Some v" for C v
  proof -
    from that have "v = window_of (stamps C evs)"
      by (simp add: registry_of_def split: if_splits)
    then show ?thesis
      by (simp add: window_of_def event_data_freq_array_size_def)
  qed
  have full: "\<exists>v. registry_of evs C = Some v \<and>
             timestamps v = lastn 64 (stamps C evs) \<and>
             freq_array v = lastn 64 (all_freqs (stamps C evs)) \<and>
             length (timestamps v) = 64 \<and> length (freq_array v) = 64"
    if "sorted_wrt (<) (stamps C evs) \<and> 64 < length (stamps C evs)" for C
  proof -
    from that have rd: "remdups_adj (stamps C evs) = stamps C evs"
      by (simp add: strictly_increasing_remdups_adj)
    from that have ne: "stamps C evs \<noteq> []" by auto
    from that have "min 64 (length (stamps C evs)) = 64" by simp
    with rd ne show ?thesis
      by (simp add: registry_of_def window_of_def event_data_freq_array_size_def)
  qed
  from run inv full show ?thesis by blast
qed

theorem window_bound_witness:
  "sorted_wrt (<) (stamps Mouse (map (\<lambda>n. (Mouse, word_of_nat n)) [0..<100])) \<and>
   64 < length (stamps Mouse (map (\<lambda>n. (Mouse, word_of_nat n)) [0..<100])) \<and>
   (\<exists>events v.
      processEvents (map (\<lambda>n. (Mouse, word_of_nat n)) [0..<100]) Map.empty = Inr events \<and>
      events Mouse = Some v \<and>
      timestamps v = map word_of_nat [36..<100] \<and>
      length (timestamps v) = 64 \<and> length (freq_array v) = 64)"
proof -
  let ?E = "map (\<lambda>n. (Mouse, word_of_nat n :: u32)) [0..<100]"
  have h: "sorted_wrt (<) (stamps Mouse ?E) \<and> 64 < length (stamps Mouse ?E)"
    by code_simp
  have l: "lastn 64 (stamps Mouse ?E) = map word_of_nat [36..<100]"
    by code_simp
  from window_bound [of ?E] h l show ?thesis
    by (metis (no_types, lifting))
qed

text \<open>
  C2. A call that is not dropped as a duplicate, on a state that satisfies the
  invariant, pushes the sample \<open>0\<close> when the state has no samples, and otherwise the
  sample \<open>1000 / (ts - last)\<close>, the difference taken on \<^verbatim>\<open>uint32_t\<close>; the pushed
  sample is the last of the new window. After the timestamps 1000 and 1010 the samples
  are \<open>[0, 100]\<close>.
\<close>

theorem record_sample:
  assumes "wf_EventData (lookup events C)"
    and "\<not> (timestamps (lookup events C) \<noteq> [] \<and> ts = last (timestamps (lookup events C)))"
  shows "\<exists>v'. processEvent C ts events = Inr (events(C \<mapsto> v')) \<and>
           freq_array v' =
             lastn 64 (freq_array (lookup events C) @
               [if freq_array (lookup events C) = [] then 0
                else 1000 / real (unat (ts - last (timestamps (lookup events C))))]) \<and>
           last (freq_array v') =
             (if freq_array (lookup events C) = [] then 0
              else 1000 / real (unat (ts - last (timestamps (lookup events C)))))"
proof -
  let ?v = "lookup events C"
  from assms(1) have len: "length (timestamps ?v) = length (freq_array ?v)"
    and le: "length (freq_array ?v) \<le> 64"
    by (simp_all add: wf_EventData_def event_data_freq_array_size_def)
  show ?thesis
  proof (cases "timestamps ?v = []")
    case True
    then have f: "freq_array ?v = []" using len by simp
    from True f have "processEvent C ts events =
        Inr (events(C \<mapsto> ?v\<lparr>freq_array := [0], timestamps := [ts]\<rparr>))"
      by (rule processEvent_first)
    moreover have "freq_array (?v\<lparr>freq_array := [0], timestamps := [ts]\<rparr>) =
        lastn 64 (freq_array ?v @ [if freq_array ?v = [] then 0
                else 1000 / real (unat (ts - last (timestamps ?v)))])"
      using f by (simp add: lastn_def)
    ultimately show ?thesis using f by (intro exI conjI) (assumption, simp, simp)
  next
    case False
    then have neq: "ts \<noteq> last (timestamps ?v)" using assms(2) by simp
    from False len have f: "freq_array ?v \<noteq> []" by auto
    note processEvent_next [OF len False neq]
    then show ?thesis using f
      by (intro exI conjI) (assumption, simp_all add: event_data_freq_array_size_def)
  qed
qed

theorem record_sample_witness:
  "wf_EventData (lookup [Mouse \<mapsto> \<lparr>timestamps = [1000], freq_array = [0], average_freq = 0\<rparr>] Mouse) \<and>
   (\<exists>v'. processEvent Mouse 1010
            [Mouse \<mapsto> \<lparr>timestamps = [1000], freq_array = [0], average_freq = 0\<rparr>] =
            Inr [Mouse \<mapsto> v'] \<and>
          freq_array v' = [0, 100] \<and> last (freq_array v') = 100)"
proof -
  let ?ev = "[Mouse \<mapsto> \<lparr>timestamps = [1000::u32], freq_array = [0::real], average_freq = 0\<rparr>]"
  have h1: "wf_EventData (lookup ?ev Mouse)"
    by (simp add: wf_EventData_def lookup_def event_data_freq_array_size_def)
  have h2: "\<not> (timestamps (lookup ?ev Mouse) \<noteq> [] \<and> 1010 = last (timestamps (lookup ?ev Mouse)))"
    by (simp add: lookup_def)
  from record_sample [OF h1 h2] h1 show ?thesis
    by (simp add: lookup_def lastn_def)
qed

text \<open>
  C3. If the state of class \<open>C\<close> has a last timestamp and \<open>t\<close> equals it,
  \<open>processEvent C t\<close> succeeds and leaves the whole map unchanged. Hence, on a map that
  satisfies the invariant, a call followed by the same call leaves the map as it was
  after the first call.
\<close>

theorem duplicate_suppression:
  "(events C = Some v \<and> timestamps v \<noteq> [] \<and> t = last (timestamps v) \<longrightarrow>
      processEvent C t events = Inr events) \<and>
   (wf_registry events \<longrightarrow>
      (\<exists>events'. processEvent C t events = Inr events' \<and>
                 processEvent C t events' = Inr events'))"
proof (intro conjI impI)
  assume a: "events C = Some v \<and> timestamps v \<noteq> [] \<and> t = last (timestamps v)"
  then have "lookup events C = v" by (simp add: lookup_Some)
  with a have "processEvent C t events = Inr (events(C \<mapsto> lookup events C))"
    by (intro processEvent_duplicate) simp_all
  with a show "processEvent C t events = Inr events"
    by (simp add: upd_lookup_Some)
next
  assume wf: "wf_registry events"
  let ?v = "lookup events C"
  have len: "length (timestamps ?v) = length (freq_array ?v)"
    using wf_registry_lookup [OF wf, of C] by (simp add: wf_EventData_def)
  have "\<exists>v'. processEvent C t events = Inr (events(C \<mapsto> v')) \<and>
          timestamps v' \<noteq> [] \<and> last (timestamps v') = t"
  proof (cases "timestamps ?v = []")
    case True
    then have "freq_array ?v = []" using len by simp
    with True have "processEvent C t events =
        Inr (events(C \<mapsto> ?v\<lparr>freq_array := [0], timestamps := [t]\<rparr>))"
      by (rule processEvent_first)
    then show ?thesis by (intro exI conjI) (assumption, simp_all)
  next
    case False
    show ?thesis
    proof (cases "t = last (timestamps ?v)")
      case True
      with False have "processEvent C t events = Inr (events(C \<mapsto> ?v))"
        by (rule processEvent_duplicate)
      with False True show ?thesis by (intro exI conjI) (assumption, simp_all)
    next
      case neq: False
      note processEvent_next [OF len False neq]
      then show ?thesis
        by (intro exI conjI) (assumption, simp_all add: event_data_freq_array_size_def)
    qed
  qed
  then obtain v' where p: "processEvent C t events = Inr (events(C \<mapsto> v'))"
    and ne: "timestamps v' \<noteq> []" and l: "last (timestamps v') = t" by blast
  have "lookup (events(C \<mapsto> v')) C = v'" by (simp add: lookup_def)
  with ne l have "processEvent C t (events(C \<mapsto> v')) =
      Inr ((events(C \<mapsto> v'))(C \<mapsto> lookup (events(C \<mapsto> v')) C))"
    by (intro processEvent_duplicate) simp_all
  then have "processEvent C t (events(C \<mapsto> v')) = Inr (events(C \<mapsto> v'))"
    by (simp add: lookup_def)
  with p show "\<exists>events'. processEvent C t events = Inr events' \<and>
                 processEvent C t events' = Inr events'"
    by blast
qed

theorem duplicate_suppression_witness:
  "[Mouse \<mapsto> \<lparr>timestamps = [5, 7], freq_array = [0, 500], average_freq = 0\<rparr>] Mouse =
     Some \<lparr>timestamps = [5, 7], freq_array = [0, 500], average_freq = 0\<rparr> \<and>
   timestamps \<lparr>timestamps = [5, 7], freq_array = [0, 500], average_freq = 0\<rparr> \<noteq> [] \<and>
   (7 :: u32) = last (timestamps \<lparr>timestamps = [5, 7], freq_array = [0, 500], average_freq = 0\<rparr>) \<and>
   wf_registry [Mouse \<mapsto> \<lparr>timestamps = [5, 7], freq_array = [0, 500], average_freq = 0\<rparr>] \<and>
   processEvent Mouse 7 [Mouse \<mapsto> \<lparr>timestamps = [5, 7], freq_array = [0, 500], average_freq = 0\<rparr>] =
     Inr [Mouse \<mapsto> \<lparr>timestamps = [5, 7], freq_array = [0, 500], average_freq = 0\<rparr>] \<and>
   (\<exists>events'.
      processEvent Mouse 9 [Mouse \<mapsto> \<lparr>timestamps = [5, 7], freq_array = [0, 500], average_freq = 0\<rparr>] =
        Inr events' \<and>
      processEvent Mouse 9 events' = Inr events')"
proof -
  let ?v = "\<lparr>timestamps = [5, 7 :: u32], freq_array = [0, 500 :: real], average_freq = 0\<rparr>"
  have h: "[Mouse \<mapsto> ?v] Mouse = Some ?v \<and> timestamps ?v \<noteq> [] \<and> (7 :: u32) = last (timestamps ?v)"
    by simp
  have wf: "wf_registry [Mouse \<mapsto> ?v]"
    by (simp add: wf_registry_def wf_EventData_def lookup_def EventData_default_def
        event_data_freq_array_size_def)
  from duplicate_suppression [of "[Mouse \<mapsto> ?v]" Mouse ?v 7]
    duplicate_suppression [of "[Mouse \<mapsto> ?v]" Mouse ?v 9] h wf
  show ?thesis by blast
qed

text \<open>
  C4. The timestamps 0, 10, 10, 30 sent to class \<open>Mouse\<close> from the empty map leave the
  timestamps \<open>[0, 10, 30]\<close> and the samples \<open>[0, 100, 50]\<close>.
\<close>

theorem mouse_scenario:
  "processEvents [(Mouse, 0), (Mouse, 10), (Mouse, 10), (Mouse, 30)] Map.empty =
     Inr [Mouse \<mapsto> \<lparr>timestamps = [0, 10, 30], freq_array = [0, 100, 50], average_freq = 0\<rparr>] \<and>
   length (timestamps \<lparr>timestamps = [0, 10, 30], freq_array = [0, 100, 50], average_freq = 0\<rparr>) = 3"
  by (simp add: processEvent_def lookup_def EventData_default_def evict.simps
      event_data_freq_array_size_def)

text \<open>
  C5. For a class whose state has samples, none of them negative, \<open>logEventData\<close>
  writes exactly one line for the class; its mean is the sum of the samples divided by
  their number and its maximum is the largest sample. Every state that calls of
  \<open>processEvent\<close> from the empty map build is such a state, so the report of every
  registry the program reaches has these values. For the window
  \<open>[0, 100, 50, 100]\<close> the line says maximum 100 and mean 62.5: the first sample \<open>0\<close>
  counts in both.
\<close>

theorem report_mean_max:
  "(events C = Some e \<and> freq_array e \<noteq> [] \<and> (\<forall>f \<in> set (freq_array e). 0 \<le> f) \<longrightarrow>
      filter (\<lambda>l. line_type l = TimedEventTypeToString C) (snd (logEventData events)) =
        [\<lparr>line_type = TimedEventTypeToString C,
          line_max = Max (set (freq_array e)),
          line_avg = sum_list (freq_array e) / real (length (freq_array e))\<rparr>]) \<and>
   (processEvents evs Map.empty = Inr r \<and> r C = Some v \<longrightarrow>
      freq_array v \<noteq> [] \<and> (\<forall>f \<in> set (freq_array v). 0 \<le> f) \<and>
      filter (\<lambda>l. line_type l = TimedEventTypeToString C) (snd (logEventData r)) =
        [\<lparr>line_type = TimedEventTypeToString C,
          line_max = Max (set (freq_array v)),
          line_avg = sum_list (freq_array v) / real (length (freq_array v))\<rparr>])"
proof -
  have line: "filter (\<lambda>l. line_type l = TimedEventTypeToString C) (snd (logEventData m)) =
        [\<lparr>line_type = TimedEventTypeToString C,
          line_max = Max (set (freq_array w)),
          line_avg = sum_list (freq_array w) / real (length (freq_array w))\<rparr>]"
    if a: "m C = Some w \<and> freq_array w \<noteq> [] \<and> (\<forall>f \<in> set (freq_array w). 0 \<le> f)"
    for m w
  proof -
    from a obtain f where f: "f \<in> set (freq_array w)" "0 \<le> f"
      by (cases "freq_array w") auto
    then have "f \<le> Max (set (freq_array w))" by simp
    with f have "0 \<le> Max (set (freq_array w))" by linarith
    with a have "Max (insert 0 (set (freq_array w))) = Max (set (freq_array w))"
      by simp
    with a show ?thesis
      by (cases C) (simp_all add: logEventData_eq entry_lines_def split: option.splits)
  qed
  have built: "freq_array v \<noteq> [] \<and> (\<forall>f \<in> set (freq_array v). 0 \<le> f)"
    if a: "processEvents evs Map.empty = Inr r \<and> r C = Some v"
  proof -
    from a have "registry_of evs C = Some v" by (simp add: processEvents_empty)
    then have ne: "stamps C evs \<noteq> []" and v: "v = window_of (stamps C evs)"
      by (simp_all add: registry_of_def split: if_splits)
    from ne v have fne: "freq_array v \<noteq> []"
      by (simp add: window_of_def event_data_freq_array_size_def)
    have "0 \<le> f" if "f \<in> set (freq_array v)" for f
    proof -
      from that v
      have "f \<in> set (lastn event_data_freq_array_size (all_freqs (remdups_adj (stamps C evs))))"
        by (simp add: window_of_def)
      then have "f \<in> set (all_freqs (remdups_adj (stamps C evs)))"
        using set_lastn by (rule rev_subsetD)
      then show ?thesis by (rule all_freqs_nonneg)
    qed
    with fne show ?thesis by blast
  qed
  have reached: "freq_array v \<noteq> [] \<and> (\<forall>f \<in> set (freq_array v). 0 \<le> f) \<and>
      filter (\<lambda>l. line_type l = TimedEventTypeToString C) (snd (logEventData r)) =
        [\<lparr>line_type = TimedEventTypeToString C,
          line_max = Max (set (freq_array v)),
          line_avg = sum_list (freq_array v) / real (length (freq_array v))\<rparr>]"
    if a: "processEvents evs Map.empty = Inr r \<and> r C = Some v"
  proof -
    from a have b: "freq_array v \<noteq> [] \<and> (\<forall>f \<in> set (freq_array v). 0 \<le> f)"
      by (rule built)
    with a have "r C = Some v \<and> freq_array v \<noteq> [] \<and> (\<forall>f \<in> set (freq_array v). 0 \<le> f)"
      by simp
    then have "filter (\<lambda>l. line_type l = TimedEventTypeToString C) (snd (logEventData r)) =
        [\<lparr>line_type = TimedEventTypeToString C,
          line_max = Max (set (freq_array v)),
          line_avg = sum_list (freq_array v) / real (length (freq_array v))\<rparr>]"
      by (rule line)
    with b show ?thesis by simp
  qed
  from line [of events e] reached show ?thesis by blast
qed

theorem report_mean_max_witness:
  "processEvents [(Mouse, 0), (Mouse, 10), (Mouse, 30), (Mouse, 40)] Map.empty =
     Inr [Mouse \<mapsto> \<lparr>timestamps = [0, 10, 30, 40], freq_array = [0, 100, 50, 100], average_freq = 0\<rparr>] \<and>
   [Mouse \<mapsto> \<lparr>timestamps = [0, 10, 30, 40], freq_array = [0, 100, 50, 100], average_freq = 0\<rparr>] Mouse =
     Some \<lparr>timestamps = [0, 10, 30, 40], freq_array = [0, 100, 50, 100], average_freq = 0\<rparr> \<and>
   list_all (\<lambda>f. 0 \<le> f) [0, 100, 50, 100 :: real] \<and>
   filter (\<lambda>l. line_type l = ''Mouse'')
     (snd (logEventData
        [Mouse \<mapsto> \<lparr>timestamps = [0, 10, 30, 40], freq_array = [0, 100, 50, 100], average_freq = 0\<rparr>])) =
     [\<lparr>line_type = ''Mouse'', line_max = 100, line_avg = 62.5\<rparr>] \<and>
   Max (set [0, 100, 50, 100 :: real]) = 100 \<and>
   sum_list [0, 100, 50, 100 :: real] / real (length [0, 100, 50, 100 :: real]) = 62.5"
proof -
  let ?e = "\<lparr>timestamps = [0, 10, 30, 40 :: u32], freq_array = [0, 100, 50, 100 :: real], average_freq = 0\<rparr>"
  have run: "processEvents [(Mouse, 0), (Mouse, 10), (Mouse, 30), (Mouse, 40)] Map.empty =
     Inr [Mouse \<mapsto> ?e]"
    by (simp add: processEvent_def lookup_def EventData_default_def evict.simps
        event_data_freq_array_size_def)
  have h: "[Mouse \<mapsto> ?e] Mouse = Some ?e \<and> freq_array ?e \<noteq> [] \<and>
      (\<forall>f \<in> set (freq_array ?e). 0 \<le> f)"
    by simp
  have m: "Max (set [0, 100, 50, 100 :: real]) = 100" by simp
  from report_mean_max [of "[Mouse \<mapsto> ?e]" Mouse ?e
      "[(Mouse, 0), (Mouse, 10), (Mouse, 30), (Mouse, 40)]" "[Mouse \<mapsto> ?e]" ?e] run h m
  show ?thesis by simp
qed

text \<open>
  C6. \<open>logEventData\<close> writes no line for a class whose state has no samples, nor for a
  class that is not in the map; on the empty map it writes nothing. The function has
  no failing operation (its only division is by the number of samples of a state that
  has samples), so it always returns: it writes one line for each class whose state has
  samples, and no other.
\<close>

theorem report_omission:
  "((events C = None \<or> (\<exists>e. events C = Some e \<and> freq_array e = [])) \<longrightarrow>
      (\<forall>l \<in> set (snd (logEventData events)). line_type l \<noteq> TimedEventTypeToString C)) \<and>
   snd (logEventData Map.empty) = [] \<and>
   map line_type (snd (logEventData events)) =
     map TimedEventTypeToString
       (filter (\<lambda>t. freq_array (lookup events t) \<noteq> []) [Keyboard, Mouse])"
proof -
  have none: "entry_lines events C = []"
    if "events C = None \<or> (\<exists>e. events C = Some e \<and> freq_array e = [])"
    using that by (auto simp add: entry_lines_def)
  have other: "line_type l \<noteq> TimedEventTypeToString C"
    if "l \<in> set (entry_lines events t)" and "t \<noteq> C" for l t
    using that by (cases t; cases C) (auto simp add: entry_lines_def split: option.splits if_splits)
  have omit: "\<forall>l \<in> set (snd (logEventData events)). line_type l \<noteq> TimedEventTypeToString C"
    if a: "events C = None \<or> (\<exists>e. events C = Some e \<and> freq_array e = [])"
  proof
    fix l assume "l \<in> set (snd (logEventData events))"
    then have "l \<in> set (entry_lines events Keyboard) \<or> l \<in> set (entry_lines events Mouse)"
      by (simp add: logEventData_eq)
    with none [OF a] other show "line_type l \<noteq> TimedEventTypeToString C"
      by (cases C) auto
  qed
  have empty: "snd (logEventData Map.empty) = []"
    by (simp add: logEventData_eq entry_lines_def)
  have types: "map line_type (entry_lines events t) =
      (if freq_array (lookup events t) \<noteq> [] then [TimedEventTypeToString t] else [])" for t
    by (simp add: entry_lines_def lookup_def EventData_default_def split: option.splits)
  have all: "map line_type (snd (logEventData events)) =
     map TimedEventTypeToString
       (filter (\<lambda>t. freq_array (lookup events t) \<noteq> []) [Keyboard, Mouse])"
    by (simp add: logEventData_eq types)
  from omit empty all show ?thesis by blast
qed

theorem report_omission_witness:
  "(\<exists>e. [Keyboard \<mapsto> EventData_default,
          Mouse \<mapsto> \<lparr>timestamps = [3], freq_array = [0], average_freq = 0\<rparr>] Keyboard = Some e \<and>
        freq_array e = []) \<and>
   snd (logEventData [Keyboard \<mapsto> EventData_default,
          Mouse \<mapsto> \<lparr>timestamps = [3], freq_array = [0], average_freq = 0\<rparr>]) =
     [\<lparr>line_type = ''Mouse'', line_max = 0, line_avg = 0\<rparr>] \<and>
   ''Keyboard'' \<notin> set (map line_type (snd (logEventData [Keyboard \<mapsto> EventData_default,
          Mouse \<mapsto> \<lparr>timestamps = [3], freq_array = [0], average_freq = 0\<rparr>])))"
proof -
  let ?ev = "[Keyboard \<mapsto> EventData_default,
          Mouse \<mapsto> \<lparr>timestamps = [3 :: u32], freq_array = [0 :: real], average_freq = 0\<rparr>]"
  have h: "\<exists>e. ?ev Keyboard = Some e \<and> freq_array e = []"
    by (simp add: EventData_default_def)
  have r: "snd (logEventData ?ev) = [\<lparr>line_type = ''Mouse'', line_max = 0, line_avg = 0\<rparr>]"
    by (simp add: logEventData_def logEntry_def EventData_default_def)
  from report_omission [of ?ev Keyboard] h have
    "\<forall>l \<in> set (snd (logEventData ?ev)). line_type l \<noteq> TimedEventTypeToString Keyboard"
    by blast
  then have "''Keyboard'' \<notin> set (map line_type (snd (logEventData ?ev)))"
    by auto
  with h r show ?thesis by blast
qed

text \<open>
  C7. A successful call of \<open>processEvent\<close> for one class leaves the entry of every
  other class as it was. Hence the state of a class after any sequence of calls from
  the empty map is the state after the calls for that class alone.
\<close>

theorem cross_class_independence:
  "(processEvent t ts events = Inr events' \<and> t' \<noteq> t \<longrightarrow> events' t' = events t') \<and>
   (\<exists>r r'. processEvents evs Map.empty = Inr r \<and>
            processEvents (filter (\<lambda>e. fst e = C) evs) Map.empty = Inr r' \<and>
            r C = r' C)"
proof -
  have step: "events' t' = events t'" if "processEvent t ts events = Inr events' \<and> t' \<noteq> t"
    using that processEvent_other by blast
  have "registry_of evs C = registry_of (filter (\<lambda>e. fst e = C) evs) C"
    by (simp add: registry_of_def stamps_filter)
  then have "\<exists>r r'. processEvents evs Map.empty = Inr r \<and>
            processEvents (filter (\<lambda>e. fst e = C) evs) Map.empty = Inr r' \<and>
            r C = r' C"
    by (simp add: processEvents_empty)
  with step show ?thesis by blast
qed

theorem cross_class_independence_witness:
  "processEvent Keyboard 20
     [Keyboard \<mapsto> \<lparr>timestamps = [10], freq_array = [0], average_freq = 0\<rparr>,
      Mouse \<mapsto> \<lparr>timestamps = [4, 8], freq_array = [0, 250], average_freq = 0\<rparr>] =
   Inr [Keyboard \<mapsto> \<lparr>timestamps = [10, 20], freq_array = [0, 100], average_freq = 0\<rparr>,
        Mouse \<mapsto> \<lparr>timestamps = [4, 8], freq_array = [0, 250], average_freq = 0\<rparr>] \<and>
   Mouse \<noteq> Keyboard \<and>
   [Keyboard \<mapsto> \<lparr>timestamps = [10, 20], freq_array = [0, 100], average_freq = 0\<rparr>,
    Mouse \<mapsto> \<lparr>timestamps = [4, 8], freq_array = [0, 250], average_freq = 0\<rparr>] Mouse =
   [Keyboard \<mapsto> \<lparr>timestamps = [10], freq_array = [0], average_freq = 0\<rparr>,
    Mouse \<mapsto> \<lparr>timestamps = [4, 8], freq_array = [0, 250 :: real], average_freq = 0\<rparr>] Mouse"
proof -
  let ?ev = "[Keyboard \<mapsto> \<lparr>timestamps = [10 :: u32], freq_array = [0 :: real], average_freq = 0\<rparr>,
      Mouse \<mapsto> \<lparr>timestamps = [4, 8], freq_array = [0, 250], average_freq = 0\<rparr>]"
  let ?ev' = "[Keyboard \<mapsto> \<lparr>timestamps = [10, 20 :: u32], freq_array = [0, 100 :: real], average_freq = 0\<rparr>,
      Mouse \<mapsto> \<lparr>timestamps = [4, 8], freq_array = [0, 250], average_freq = 0\<rparr>]"
  have p: "processEvent Keyboard 20 ?ev = Inr ?ev'"
    by (simp add: processEvent_def lookup_def evict.simps event_data_freq_array_size_def
        fun_upd_twist)
  have n: "Mouse \<noteq> Keyboard" by simp
  from cross_class_independence [of Keyboard 20 ?ev ?ev' Mouse] p n
  have "?ev' Mouse = ?ev Mouse" by blast
  with p n show ?thesis by blast
qed

text \<open>
  C8. No sequence of calls from the empty map fails, and a call on a map that satisfies
  the invariant succeeds and keeps the invariant. For a timestamp below the last one of
  the class the call pushes the sample \<open>1000 / d\<close>, where \<open>d\<close> is the difference
  \<open>(ts - last) mod 2 ^ 32\<close>, that is \<open>2 ^ 32 - (last - ts)\<close>, and pushes the timestamp.
\<close>

theorem record_never_fails:
  "(\<exists>r. processEvents evs Map.empty = Inr r) \<and>
   (wf_registry events \<longrightarrow>
      (\<exists>events'. processEvent C ts events = Inr events' \<and> wf_registry events')) \<and>
   (wf_registry events \<and> events C = Some v \<and> timestamps v \<noteq> [] \<and> ts < last (timestamps v) \<longrightarrow>
      (\<exists>v'. processEvent C ts events = Inr (events(C \<mapsto> v')) \<and>
            freq_array v' =
              lastn 64 (freq_array v @
                [1000 / real (nat ((int (unat ts) - int (unat (last (timestamps v)))) mod 2 ^ 32))]) \<and>
            timestamps v' = lastn 64 (timestamps v @ [ts]) \<and>
            nat ((int (unat ts) - int (unat (last (timestamps v)))) mod 2 ^ 32) =
              2 ^ 32 - (unat (last (timestamps v)) - unat ts)))"
proof -
  have run: "\<exists>r. processEvents evs Map.empty = Inr r"
    by (simp add: processEvents_empty)
  have step: "\<exists>events'. processEvent C ts events = Inr events' \<and> wf_registry events'"
    if "wf_registry events"
    using that by (rule processEvent_wf)
  have ooo: "\<exists>v'. processEvent C ts events = Inr (events(C \<mapsto> v')) \<and>
            freq_array v' =
              lastn 64 (freq_array v @
                [1000 / real (nat ((int (unat ts) - int (unat (last (timestamps v)))) mod 2 ^ 32))]) \<and>
            timestamps v' = lastn 64 (timestamps v @ [ts]) \<and>
            nat ((int (unat ts) - int (unat (last (timestamps v)))) mod 2 ^ 32) =
              2 ^ 32 - (unat (last (timestamps v)) - unat ts)"
    if a: "wf_registry events \<and> events C = Some v \<and> timestamps v \<noteq> [] \<and> ts < last (timestamps v)"
  proof -
    from a have v: "lookup events C = v" by (simp add: lookup_Some)
    from a have "wf_EventData (lookup events C)" by (simp add: wf_registry_lookup)
    with v have len: "length (timestamps (lookup events C)) = length (freq_array (lookup events C))"
      by (simp add: wf_EventData_def)
    from a v have ne: "timestamps (lookup events C) \<noteq> []" by simp
    from a v have neq: "ts \<noteq> last (timestamps (lookup events C))" by auto
    have d: "unat (ts - last (timestamps v)) =
        nat ((int (unat ts) - int (unat (last (timestamps v)))) mod 2 ^ 32)"
      by (rule delta_wrapped)
    from a have lt: "unat ts < unat (last (timestamps v))"
      by (simp add: word_less_nat_alt)
    have bound: "unat (last (timestamps v)) < 2 ^ 32"
      using unsigned_less [of "last (timestamps v)", where ?'a = nat] by simp
    from lt bound have w: "nat ((int (unat ts) - int (unat (last (timestamps v)))) mod 2 ^ 32) =
        2 ^ 32 - (unat (last (timestamps v)) - unat ts)"
      by (rule wrapped_difference)
    let ?d = "nat ((int (unat ts) - int (unat (last (timestamps v)))) mod 2 ^ 32)"
    let ?v' = "v\<lparr>freq_array := lastn 64 (freq_array v @ [1000 / real ?d]),
                 timestamps := lastn 64 (timestamps v @ [ts])\<rparr>"
    have "processEvent C ts events = Inr (events(C \<mapsto> ?v'))"
      using processEvent_next [OF len ne neq]
      by (simp only: v d event_data_freq_array_size_def)
    moreover have "freq_array ?v' = lastn 64 (freq_array v @ [1000 / real ?d])"
      by simp
    moreover have "timestamps ?v' = lastn 64 (timestamps v @ [ts])"
      by simp
    ultimately show ?thesis using w by blast
  qed
  from run step ooo show ?thesis by blast
qed

theorem record_never_fails_witness:
  "wf_registry [Mouse \<mapsto> \<lparr>timestamps = [10], freq_array = [0], average_freq = 0\<rparr>] \<and>
   (5 :: u32) < last (timestamps \<lparr>timestamps = [10], freq_array = [0], average_freq = 0\<rparr>) \<and>
   (\<exists>r. processEvents [(Mouse, 10), (Mouse, 5)] Map.empty = Inr r) \<and>
   (\<exists>v'. processEvent Mouse 5 [Mouse \<mapsto> \<lparr>timestamps = [10], freq_array = [0], average_freq = 0\<rparr>] =
            Inr [Mouse \<mapsto> v'] \<and>
          freq_array v' = [0, 1000 / 4294967291] \<and>
          timestamps v' = [10, 5])"
proof -
  let ?v = "\<lparr>timestamps = [10 :: u32], freq_array = [0 :: real], average_freq = 0\<rparr>"
  have wf: "wf_registry [Mouse \<mapsto> ?v]"
    by (simp add: wf_registry_def wf_EventData_def lookup_def EventData_default_def
        event_data_freq_array_size_def)
  have h: "[Mouse \<mapsto> ?v] Mouse = Some ?v \<and> timestamps ?v \<noteq> [] \<and> (5 :: u32) < last (timestamps ?v)"
    by simp
  have d: "nat ((int (unat (5 :: u32)) - int (unat (last (timestamps ?v)))) mod 2 ^ 32) = 4294967291"
    by simp
  from record_never_fails [of "[(Mouse, 10), (Mouse, 5)]" "[Mouse \<mapsto> ?v]" Mouse 5 ?v] wf h
  have "(\<exists>r. processEvents [(Mouse, 10), (Mouse, 5)] Map.empty = Inr r) \<and>
    (\<exists>v'. processEvent Mouse 5 [Mouse \<mapsto> ?v] = Inr ([Mouse \<mapsto> ?v](Mouse \<mapsto> v')) \<and>
       freq_array v' = lastn 64 (freq_array ?v @
         [1000 / real (nat ((int (unat (5 :: u32)) - int (unat (last (timestamps ?v)))) mod 2 ^ 32))]) \<and>
       timestamps v' = lastn 64 (timestamps ?v @ [5]))"
    by blast
  then have "(\<exists>r. processEvents [(Mouse, 10), (Mouse, 5)] Map.empty = Inr r) \<and>
    (\<exists>v'. processEvent Mouse 5 [Mouse \<mapsto> ?v] = Inr [Mouse \<mapsto> v'] \<and>
       freq_array v' = [0, 1000 / 4294967291] \<and> timestamps v' = [10, 5])"
    by (simp only: d) (simp add: lastn_def)
  with wf h show ?thesis by simp
qed

text \<open>
  C9. \<open>logEventData\<close> returns the map it was given: the entry of every class, with its
  timestamps and samples, is the same after the call.
\<close>

theorem report_read_only:
  "fst (logEventData events) = events \<and>
   fst (logEventData events) C = events C \<and>
   timestamps (lookup (fst (logEventData events)) C) = timestamps (lookup events C) \<and>
   freq_array (lookup (fst (logEventData events)) C) = freq_array (lookup events C)"
proof -
  have "fst (logLoop [Keyboard, Mouse] (events, [])) = fst (events, [] :: report_line list)"
    by (rule fst_logLoop)
  then have "fst (logEventData events) = events"
    by (simp only: logEventData_def fst_conv)
  then show ?thesis by simp
qed

text \<open>
  C10. A call for a class that is not in the map enters the class with one timestamp
  and the sample \<open>0\<close>. After any sequence of calls from the empty map, every state in
  the map has timestamps and samples, and the report has a line for exactly the classes
  of the map: the test for an empty window never skips an entry.
\<close>

theorem registered_state_nonempty:
  "(events C = None \<longrightarrow>
      processEvent C ts events =
        Inr (events(C \<mapsto> \<lparr>timestamps = [ts], freq_array = [0], average_freq = 0\<rparr>))) \<and>
   (processEvents evs Map.empty = Inr r \<and> r C = Some v \<longrightarrow>
      timestamps v \<noteq> [] \<and> freq_array v \<noteq> []) \<and>
   (processEvents evs Map.empty = Inr r \<longrightarrow>
      map line_type (snd (logEventData r)) =
        map TimedEventTypeToString (filter (\<lambda>t. r t \<noteq> None) [Keyboard, Mouse]))"
proof -
  have lazy: "processEvent C ts events =
        Inr (events(C \<mapsto> \<lparr>timestamps = [ts], freq_array = [0], average_freq = 0\<rparr>))"
    if "events C = None"
  proof -
    from that have "lookup events C = EventData_default" by (rule lookup_None)
    then show ?thesis
      using processEvent_first [of events C ts] by (simp add: EventData_default_def)
  qed
  have ne: "timestamps v \<noteq> [] \<and> freq_array v \<noteq> []" if "registry_of evs C = Some v" for C v
  proof -
    from that have "stamps C evs \<noteq> []" and "v = window_of (stamps C evs)"
      by (simp_all add: registry_of_def split: if_splits)
    then show ?thesis
      by (simp add: window_of_def event_data_freq_array_size_def)
  qed
  have types: "map line_type (entry_lines (registry_of evs) t) =
      (if registry_of evs t \<noteq> None then [TimedEventTypeToString t] else [])" for t
    using ne [of t] by (auto simp add: entry_lines_def split: option.splits)
  have lines: "map line_type (snd (logEventData (registry_of evs))) =
        map TimedEventTypeToString (filter (\<lambda>t. registry_of evs t \<noteq> None) [Keyboard, Mouse])"
    by (simp add: logEventData_eq types)
  have r: "r = registry_of evs" if "processEvents evs Map.empty = Inr r"
    using that by (simp add: processEvents_empty)
  from lazy ne lines r show ?thesis by blast
qed

theorem registered_state_nonempty_witness:
  "(Map.empty :: registry) Mouse = None \<and>
   processEvent Mouse 3 Map.empty =
     Inr [Mouse \<mapsto> \<lparr>timestamps = [3], freq_array = [0], average_freq = 0\<rparr>] \<and>
   processEvents [(Mouse, 3)] Map.empty =
     Inr [Mouse \<mapsto> \<lparr>timestamps = [3], freq_array = [0], average_freq = 0\<rparr>] \<and>
   timestamps \<lparr>timestamps = [3 :: u32], freq_array = [0 :: real], average_freq = 0\<rparr> \<noteq> [] \<and>
   freq_array \<lparr>timestamps = [3 :: u32], freq_array = [0 :: real], average_freq = 0\<rparr> \<noteq> [] \<and>
   map line_type (snd (logEventData
     [Mouse \<mapsto> \<lparr>timestamps = [3], freq_array = [0], average_freq = 0\<rparr>])) = [''Mouse'']"
proof -
  let ?v = "\<lparr>timestamps = [3 :: u32], freq_array = [0 :: real], average_freq = 0\<rparr>"
  have run: "processEvents [(Mouse, 3)] Map.empty = Inr [Mouse \<mapsto> ?v]"
    by (simp add: processEvent_def lookup_def EventData_default_def evict.simps
        event_data_freq_array_size_def)
  have h: "(Map.empty :: registry) Mouse = None" "[Mouse \<mapsto> ?v] Mouse = Some ?v"
    by simp_all
  from registered_state_nonempty [of Map.empty Mouse 3 "[(Mouse, 3)]" "[Mouse \<mapsto> ?v]" ?v] run h
  show ?thesis by simp
qed

end
